theory Spec2Isabelle
  imports Complex_Main
begin

section \<open>Python values shared by both components\<close>

text \<open>
  Exceptions of the source are values. \<open>AttributeError\<close>, \<open>IndexError\<close> and
  \<open>KeyError\<close> are raised by the Python of the repository itself;
  \<open>FileNotFoundError\<close> is what \<open>torch.load\<close> raises for a missing file,
  \<open>TypeError\<close> what \<open>load_state_dict\<close> raises when it is handed something that is
  not a state dict, and \<open>ForwardError\<close> stands for anything a forward pass raises.
\<close>

datatype error =
  AttributeError | IndexError | KeyError | FileNotFoundError | TypeError | ForwardError

text \<open>
  A Python \<open>dict\<close> keeps its keys in insertion order: it is an association list.
  \<open>d[key] = v\<close> replaces the value of a key that is present, at its place, and appends a
  new key at the end; \<open>d.pop(key, default)\<close> returns the value (or the default) and
  removes the key; \<open>d[key]\<close> on a present key and \<open>key in d\<close> are \<open>map_of\<close>.
\<close>

type_synonym ('k, 'v) dict = "('k \<times> 'v) list"

fun dict_set :: "('k, 'v) dict \<Rightarrow> 'k \<Rightarrow> 'v \<Rightarrow> ('k, 'v) dict" where
  "dict_set [] key v = [(key, v)]"
| "dict_set ((k, x) # d) key v =
     (if k = key then (k, v) # d else (k, x) # dict_set d key v)"

definition dict_pop :: "('k, 'v) dict \<Rightarrow> 'k \<Rightarrow> 'v \<Rightarrow> 'v \<times> ('k, 'v) dict" where
  "dict_pop d key dflt =
     ((case map_of d key of None \<Rightarrow> dflt | Some v \<Rightarrow> v),
      filter (\<lambda>p. fst p \<noteq> key) d)"

definition keys :: "('k, 'v) dict \<Rightarrow> 'k list" where
  "keys d = map fst d"

section \<open>CheckpointManager (probnmn/utils/checkpointing.py)\<close>

subsection \<open>Data\<close>

text \<open>
  A state dict is a value of an arbitrary type \<open>'s\<close>. What a checkpoint file holds under
  a key is either a state dict or the integer stored under \<open>"iteration"\<close>.
\<close>

datatype 's pyval = PInt int | StateDict 's

text \<open>
  A checkpointable is a plain object with \<open>state_dict\<close>/\<open>load_state_dict\<close>, or a
  \<open>DataParallel\<close> / \<open>DistributedDataParallel\<close> wrapper, for which the source goes
  through \<open>.module\<close>; the wrappers carry the state of the wrapped module.
\<close>

datatype 's checkpointable =
  Plain 's | DataParallel 's | DistributedDataParallel 's

fun state_dict :: "'s checkpointable \<Rightarrow> 's" where
  "state_dict (DataParallel s) = s"
| "state_dict (DistributedDataParallel s) = s"
| "state_dict (Plain s) = s"

fun load_state_dict :: "'s checkpointable \<Rightarrow> 's pyval \<Rightarrow> error + 's checkpointable" where
  "load_state_dict (DataParallel _) (StateDict s) = Inr (DataParallel s)"
| "load_state_dict (DistributedDataParallel _) (StateDict s) = Inr (DistributedDataParallel s)"
| "load_state_dict (Plain _) (StateDict s) = Inr (Plain s)"
| "load_state_dict _ (PInt _) = Inl TypeError"

text \<open>
  The manager's fields, and the directory it writes to: \<open>disk\<close> maps a path to the
  dict that \<open>torch.save\<close> serialized there; a write always succeeds (the directory
  exists). A metric is a real number, compared as the floats are; the initial
  \<open>_best_metric\<close> is the literal \<open>-1e-12\<close>. State dicts are values: \<open>_best_ckpt\<close>,
  a shallow copy in the source, holds the state dicts as they were when it was taken.
  Nothing proved below depends on what \<open>_best_ckpt\<close> holds after a later update of
  the live objects.
\<close>

record 's manager =
  serialization_dir :: string
  keep_recent :: int
  checkpointables :: "(string, 's checkpointable) dict"
  best_metric :: real
  best_ckpt :: "(string, 's pyval) dict"
  recent_iterations :: "int list"
  disk :: "string \<rightharpoonup> (string, 's pyval) dict"

definition init ::
  "string \<Rightarrow> int \<Rightarrow> (string, 's checkpointable) dict \<Rightarrow>
   (string \<rightharpoonup> (string, 's pyval) dict) \<Rightarrow> 's manager" where
  "init dir k cps files =
     \<lparr>serialization_dir = dir, keep_recent = k, checkpointables = cps,
      best_metric = - (1 / 10 ^ 12), best_ckpt = [], recent_iterations = [],
      disk = files\<rparr>"

subsection \<open>File names\<close>

text \<open>\<open>str(n)\<close> of an integer, as the f-string \<open>f"checkpoint_{iteration}.pth"\<close> prints it.\<close>

definition digit :: "nat \<Rightarrow> char" where
  "digit n = ''0123456789'' ! n"

fun str_nat :: "nat \<Rightarrow> string" where
  "str_nat n = (if n < 10 then [digit n] else str_nat (n div 10) @ [digit (n mod 10)])"

declare str_nat.simps [simp del]

definition str_int :: "int \<Rightarrow> string" where
  "str_int i = (if i < 0 then CHR ''-'' # str_nat (nat (- i)) else str_nat (nat i))"

definition checkpoint_path :: "string \<Rightarrow> int \<Rightarrow> string" where
  "checkpoint_path dir iteration = dir @ ''/'' @ ''checkpoint_'' @ str_int iteration @ ''.pth''"

definition best_path :: "string \<Rightarrow> string" where
  "best_path dir = dir @ ''/'' @ ''checkpoint_best.pth''"

subsection \<open>Operations\<close>

text \<open>\<open>_state_dict\<close>: one entry per checkpointable, in the registry's order.\<close>

fun state_dict_loop ::
  "(string, 's checkpointable) dict \<Rightarrow> (string, 's pyval) dict \<Rightarrow> (string, 's pyval) dict" where
  "state_dict_loop [] d = d"
| "state_dict_loop ((key, c) # rest) d =
     state_dict_loop rest (dict_set d key (StateDict (state_dict c)))"

definition state_dict_all :: "'s manager \<Rightarrow> (string, 's pyval) dict" where
  "state_dict_all m = state_dict_loop (checkpointables m) []"

text \<open>
  \<open>remove_earliest_checkpoint\<close> pops the queue and then reads
  \<open>self._serialization_dir\<close>, an attribute the class never sets (the constructor sets
  \<open>serialization_dir\<close>): the read raises \<open>AttributeError\<close> before \<open>unlink\<close> is reached.
\<close>

definition remove_earliest_checkpoint :: "'s manager \<Rightarrow> (error + unit) \<times> 's manager" where
  "remove_earliest_checkpoint m =
     (case recent_iterations m of
        [] \<Rightarrow> (Inl IndexError, m)
      | earliest_iteration # rest \<Rightarrow> (Inl AttributeError, m\<lparr>recent_iterations := rest\<rparr>))"

definition step :: "int \<Rightarrow> real option \<Rightarrow> 's manager \<Rightarrow> (error + unit) \<times> 's manager" where
  "step iteration metric m =
     (let checkpointable_state_dict = dict_set (state_dict_all m) ''iteration'' (PInt iteration);
          m1 = (case metric of
                  None \<Rightarrow> m
                | Some x \<Rightarrow>
                    if x > best_metric m
                    then m\<lparr>best_metric := x, best_ckpt := checkpointable_state_dict\<rparr>
                    else m);
          m2 = m1\<lparr>disk := (disk m1)
                  (checkpoint_path (serialization_dir m1) iteration \<mapsto> checkpointable_state_dict)\<rparr>;
          m3 = m2\<lparr>disk := (disk m2)(best_path (serialization_dir m2) \<mapsto> best_ckpt m2)\<rparr>;
          m4 = m3\<lparr>recent_iterations := recent_iterations m3 @ [iteration]\<rparr>
      in if int (length (recent_iterations m4)) > keep_recent m4
         then remove_earliest_checkpoint m4
         else (Inr (), m4))"

text \<open>
  \<open>load\<close>: the loop over the keys left after \<open>pop("iteration", -1)\<close>. A key that is
  registered is loaded into the object registered under it; \<open>load_into\<close> is
  \<open>self.checkpointables[key].load_state_dict(checkpoint[key])\<close>. The \<open>is_loaded\<close> flags
  are only logged.
\<close>

fun load_into ::
  "string \<Rightarrow> 's pyval \<Rightarrow> (string, 's checkpointable) dict \<Rightarrow>
   error + (string, 's checkpointable) dict" where
  "load_into key v [] = Inl KeyError"
| "load_into key v ((k, c) # cps) =
     (if k = key
      then (case load_state_dict c v of Inl e \<Rightarrow> Inl e | Inr c' \<Rightarrow> Inr ((k, c') # cps))
      else (case load_into key v cps of Inl e \<Rightarrow> Inl e | Inr cps' \<Rightarrow> Inr ((k, c) # cps')))"

fun load_loop ::
  "(string, 's pyval) dict \<Rightarrow> (string, 's checkpointable) dict \<Rightarrow>
   (error + unit) \<times> (string, 's checkpointable) dict" where
  "load_loop [] cps = (Inr (), cps)"
| "load_loop ((key, v) # rest) cps =
     (if key \<in> set (keys cps)
      then (case load_into key v cps of
              Inl e \<Rightarrow> (Inl e, cps)
            | Inr cps' \<Rightarrow> load_loop rest cps')
      else load_loop rest cps)"

definition load :: "string \<Rightarrow> 's manager \<Rightarrow> (error + 's pyval) \<times> 's manager" where
  "load checkpoint_path' m =
     (case disk m checkpoint_path' of
        None \<Rightarrow> (Inl FileNotFoundError, m)
      | Some ckpt \<Rightarrow>
          (let popped = dict_pop ckpt ''iteration'' (PInt (- 1));
               iteration = fst popped;
               checkpoint = snd popped;
               loaded = load_loop checkpoint (checkpointables m);
               m' = m\<lparr>checkpointables := snd loaded\<rparr>
           in (case fst loaded of Inl e \<Rightarrow> (Inl e, m') | Inr _ \<Rightarrow> (Inr iteration, m'))))"

section \<open>Evaluator (probnmn/evaluators/_evaluator.py)\<close>

subsection \<open>Data\<close>

text \<open>
  A model has its \<open>training\<close> flag; \<open>get_metrics\<close> is \<open>None\<close> when the object has no
  such attribute (\<open>hasattr\<close> is false) and otherwise the value the call returns;
  \<open>module\<close> is the wrapped module when the model is an \<open>nn.DataParallel\<close>, and
  \<open>None\<close> when it is not one. \<open>train(mode)\<close> of \<open>nn.Module\<close> sets the flag of the
  module and of its children; \<open>eval()\<close> is \<open>train(False)\<close>.
\<close>

datatype 'm wrapped = Wrapped (w_training: bool) (w_get_metrics: "'m option")

datatype 'm model = Model (training: bool) (get_metrics: "'m option") (module: "'m wrapped option")

fun train_wrapped :: "bool \<Rightarrow> 'm wrapped \<Rightarrow> 'm wrapped" where
  "train_wrapped mode (Wrapped _ g) = Wrapped mode g"

fun train :: "bool \<Rightarrow> 'm model \<Rightarrow> 'm model" where
  "train mode (Model _ g w) = Model mode g (map_option (train_wrapped mode) w)"

definition eval :: "'m model \<Rightarrow> 'm model" where
  "eval m = train False m"

text \<open>
  The evaluator holds the registry of models. \<open>calls\<close> is the log of the batches handed
  to \<open>_do_iteration\<close>, oldest first; the source keeps no such log, the model does so that
  the number of processed batches can be stated.
\<close>

record ('m, 't) evaluator =
  models :: "(string, 'm model) dict"
  calls :: "(string, 't) dict list"

subsection \<open>Operations\<close>

text \<open>
  \<open>_do_iteration\<close> of the base class calls the model registered as \<open>"model"\<close> on the
  batch; \<open>forward\<close> is that call, which may raise and may change the model. A subclass
  overrides the method, so \<open>evaluate\<close> takes it as a parameter.
\<close>

definition do_iteration ::
  "('m model \<Rightarrow> (string, 't) dict \<Rightarrow> error + 'm model) \<Rightarrow>
   (string, 't) dict \<Rightarrow> (string, 'm model) dict \<Rightarrow> error + (string, 'm model) dict" where
  "do_iteration forward batch ms =
     (case map_of ms ''model'' of
        None \<Rightarrow> Inl KeyError
      | Some m \<Rightarrow>
          (case forward m batch of
             Inl e \<Rightarrow> Inl e
           | Inr m' \<Rightarrow> Inr (dict_set ms ''model'' m')))"

text \<open>
  The loop over \<open>enumerate(self._dataloader)\<close>: the data loader is the list of its
  batches, \<open>to\<close> moves a tensor to the device, \<open>iteration\<close> counts from 0, and the
  test \<open>iteration > num_batches\<close> comes after the batch has been processed.
\<close>

fun batch_loop ::
  "((string, 't) dict \<Rightarrow> (string, 'm model) dict \<Rightarrow> error + (string, 'm model) dict) \<Rightarrow>
   ('t \<Rightarrow> 't) \<Rightarrow> int option \<Rightarrow> nat \<Rightarrow> (string, 't) dict list \<Rightarrow>
   ('m, 't) evaluator \<Rightarrow> (error + unit) \<times> ('m, 't) evaluator" where
  "batch_loop do_it to num_batches iteration [] ev = (Inr (), ev)"
| "batch_loop do_it to num_batches iteration (batch # rest) ev =
     (let batch' = map (\<lambda>(key, t). (key, to t)) batch;
          ev1 = ev\<lparr>calls := calls ev @ [batch']\<rparr>
      in case do_it batch' (models ev1) of
           Inl e \<Rightarrow> (Inl e, ev1)
         | Inr ms \<Rightarrow>
             (let ev2 = ev1\<lparr>models := ms\<rparr>
              in if (case num_batches of None \<Rightarrow> False | Some n \<Rightarrow> int iteration > n)
                 then (Inr (), ev2)
                 else batch_loop do_it to num_batches (iteration + 1) rest ev2))"

text \<open>The loop that fills \<open>eval_metrics\<close>.\<close>

fun metrics_loop ::
  "(string, 'm model) dict \<Rightarrow> (string, 'm) dict \<Rightarrow> (string, 'm) dict" where
  "metrics_loop [] eval_metrics = eval_metrics"
| "metrics_loop ((model_name, m) # rest) eval_metrics =
     metrics_loop rest
       (case get_metrics m of
          Some x \<Rightarrow> dict_set eval_metrics model_name x
        | None \<Rightarrow>
            (case module m of
               Some w \<Rightarrow>
                 (case w_get_metrics w of
                    Some x \<Rightarrow> dict_set eval_metrics model_name x
                  | None \<Rightarrow> eval_metrics)
             | None \<Rightarrow> eval_metrics))"

definition evaluate ::
  "((string, 't) dict \<Rightarrow> (string, 'm model) dict \<Rightarrow> error + (string, 'm model) dict) \<Rightarrow>
   ('t \<Rightarrow> 't) \<Rightarrow> (string, 't) dict list \<Rightarrow> int option \<Rightarrow>
   ('m, 't) evaluator \<Rightarrow> (error + (string, 'm) dict) \<times> ('m, 't) evaluator" where
  "evaluate do_it to dataloader num_batches ev =
     (let ev1 = ev\<lparr>models := map (\<lambda>(model_name, m). (model_name, eval m)) (models ev)\<rparr>;
          looped = batch_loop do_it to num_batches 0 dataloader ev1
      in case fst looped of
           Inl e \<Rightarrow> (Inl e, snd looped)
         | Inr _ \<Rightarrow>
             (let ev2 = snd looped;
                  eval_metrics = metrics_loop (models ev2) [];
                  ev3 = ev2\<lparr>models := map (\<lambda>(model_name, m). (model_name, train True m)) (models ev2)\<rparr>
              in (Inr eval_metrics, ev3)))"

section \<open>Facts about dicts and file names\<close>

lemma map_of_dict_set: "map_of (dict_set d k v) = (map_of d)(k \<mapsto> v)"
  by (induction d k v rule: dict_set.induct) (auto simp: fun_eq_iff)

lemma keys_dict_set: "set (keys (dict_set d k v)) = insert k (set (keys d))"
  by (induction d k v rule: dict_set.induct) (auto simp: keys_def)

lemma distinct_dict_set: "distinct (keys d) \<Longrightarrow> distinct (keys (dict_set d k v))"
proof (induction d k v rule: dict_set.induct)
  case (1 key v)
  then show ?case by (simp add: keys_def)
next
  case (2 k x d key v)
  then show ?case
    using keys_dict_set [of d key v] by (auto simp: keys_def)
qed

lemma digit_in: "n < 10 \<Longrightarrow> digit n \<in> set ''0123456789''"
  unfolding digit_def by (rule nth_mem) simp

lemma str_nat_digits: "set (str_nat n) \<subseteq> set ''0123456789''"
proof (induction n rule: str_nat.induct)
  case (1 n)
  show ?case
  proof (cases "n < 10")
    case True
    then show ?thesis using digit_in [of n] by (subst str_nat.simps) simp
  next
    case False
    have "digit (n mod 10) \<in> set ''0123456789''" by (rule digit_in) simp
    with False 1 show ?thesis by (subst str_nat.simps) simp
  qed
qed

lemma str_int_not_best: "str_int i \<noteq> ''best''"
proof
  assume "str_int i = ''best''"
  then have "CHR ''b'' \<in> set (str_int i)" by simp
  then have "CHR ''b'' \<in> set (str_nat (nat (- i))) \<or> CHR ''b'' \<in> set (str_nat (nat i))"
    by (auto simp: str_int_def split: if_splits)
  then show False using str_nat_digits by fastforce
qed

lemma checkpoint_path_not_best: "checkpoint_path dir i \<noteq> best_path dir"
  using str_int_not_best [of i] by (simp add: checkpoint_path_def best_path_def)

lemma str_int_small:
  "str_int 0 = ''0''" "str_int 1 = ''1''" "str_int 5 = ''5''"
  by (simp_all add: str_int_def str_nat.simps digit_def)

section \<open>CheckpointManager: the best checkpoint and the retention window\<close>

text \<open>
  Claim C1 (the file \<open>checkpoint_best.pth\<close> holds the state captured at the call with the
  highest metric seen so far). The initial \<open>_best_metric\<close> is \<open>-1e-12\<close>, so a metric
  that is not above it never becomes the best: a fresh manager whose first call is
  \<open>step(0, -1.0)\<close> returns, writes the state of that call to \<open>checkpoint_0.pth\<close>, and
  writes the empty dict to \<open>checkpoint_best.pth\<close>, although \<open>-1.0\<close> is the highest
  metric seen.
\<close>

theorem step_negative_metric_leaves_best_empty:
  "fst (step 0 (Some (- 1)) (init ''/tmp'' 10 [(''model'', Plain (7::nat))] Map.empty)) = Inr ()
   \<and> disk (snd (step 0 (Some (- 1)) (init ''/tmp'' 10 [(''model'', Plain (7::nat))] Map.empty)))
        ''/tmp/checkpoint_0.pth'' = Some [(''model'', StateDict 7), (''iteration'', PInt 0)]
   \<and> disk (snd (step 0 (Some (- 1)) (init ''/tmp'' 10 [(''model'', Plain (7::nat))] Map.empty)))
        ''/tmp/checkpoint_best.pth'' = Some []"
  by (simp add: step_def init_def state_dict_all_def checkpoint_path_def best_path_def
      str_int_small Let_def)

text \<open>
  Claim C2 (with \<open>keep_recent = k\<close>, exactly \<open>k\<close> per-iteration files remain after more
  than \<open>k\<close> calls of \<open>step\<close>). With \<open>keep_recent = 1\<close> the first call returns and the
  second raises \<open>AttributeError\<close> in \<open>remove_earliest_checkpoint\<close>, after both files
  have been written: \<open>checkpoint_0.pth\<close> is not removed, and two files remain.
\<close>

theorem step_eviction_raises_and_keeps_file:
  "fst (step 0 None (init ''/tmp'' 1 [(''model'', Plain (7::nat))] Map.empty)) = Inr ()
   \<and> fst (step 1 None (snd (step 0 None (init ''/tmp'' 1 [(''model'', Plain (7::nat))] Map.empty))))
        = Inl AttributeError
   \<and> disk (snd (step 1 None (snd (step 0 None (init ''/tmp'' 1 [(''model'', Plain (7::nat))] Map.empty)))))
        ''/tmp/checkpoint_0.pth'' = Some [(''model'', StateDict 7), (''iteration'', PInt 0)]
   \<and> disk (snd (step 1 None (snd (step 0 None (init ''/tmp'' 1 [(''model'', Plain (7::nat))] Map.empty)))))
        ''/tmp/checkpoint_1.pth'' = Some [(''model'', StateDict 7), (''iteration'', PInt 1)]"
  by (simp add: step_def init_def state_dict_all_def checkpoint_path_def best_path_def
      str_int_small Let_def remove_earliest_checkpoint_def)

section \<open>CheckpointManager: load\<close>

lemma load_into_keys: "load_into key v cps = Inr cps' \<Longrightarrow> keys cps' = keys cps"
  by (induction cps arbitrary: cps') (auto simp: keys_def split: if_splits sum.splits)

lemma load_into_other:
  "load_into key v cps = Inr cps' \<Longrightarrow> name \<noteq> key \<Longrightarrow> map_of cps' name = map_of cps name"
  by (induction cps arbitrary: cps') (auto split: if_splits sum.splits)

lemma load_into_state:
  "map_of cps key = Some c \<Longrightarrow>
   \<exists>cps' c'. load_into key (StateDict s) cps = Inr cps' \<and> map_of cps' key = Some c'
      \<and> state_dict c' = s"
proof (induction cps)
  case Nil
  then show ?case by simp
next
  case (Cons p cps)
  obtain k c0 where p: "p = (k, c0)" by (cases p)
  show ?case
  proof (cases "k = key")
    case True
    then show ?thesis using p by (cases c0) auto
  next
    case False
    with Cons p show ?thesis by auto
  qed
qed

lemma registered_lookup: "key \<in> set (keys cps) \<Longrightarrow> \<exists>c. map_of cps key = Some c"
  by (induction cps) (auto simp: keys_def)

lemma lookup_registered: "map_of cps key = Some c \<Longrightarrow> key \<in> set (keys cps)"
  by (induction cps) (auto simp: keys_def split: if_splits)

lemma load_loop_keys: "keys (snd (load_loop entries cps)) = keys cps"
proof (induction entries arbitrary: cps)
  case Nil
  then show ?case by simp
next
  case (Cons p entries)
  obtain key v where p: "p = (key, v)" by (cases p)
  show ?case using Cons p
    by (auto split: sum.splits dest: load_into_keys)
qed

lemma load_loop_frame:
  "name \<notin> set (keys entries) \<Longrightarrow> map_of (snd (load_loop entries cps)) name = map_of cps name"
proof (induction entries arbitrary: cps)
  case Nil
  then show ?case by simp
next
  case (Cons p entries)
  obtain key v where p: "p = (key, v)" by (cases p)
  from Cons.prems p have ne: "name \<noteq> key" and rest: "name \<notin> set (keys entries)"
    by (auto simp: keys_def)
  show ?case using Cons.IH [OF rest] p ne
    by (auto split: sum.splits dest: load_into_other)
qed


lemma load_loop_returns:
  assumes "\<forall>p \<in> set entries. fst p \<in> set (keys cps) \<longrightarrow> (\<exists>s. snd p = StateDict s)"
  shows "fst (load_loop entries cps) = Inr ()"
  using assms
proof (induction entries arbitrary: cps)
  case Nil
  show ?case by simp
next
  case (Cons p entries)
  obtain key v where p: "p = (key, v)" by (cases p)
  have rest: "\<forall>q \<in> set entries. fst q \<in> set (keys cps) \<longrightarrow> (\<exists>s. snd q = StateDict s)"
    using Cons.prems by simp
  show ?case
  proof (cases "key \<in> set (keys cps)")
    case False
    have "fst (load_loop entries cps) = Inr ()" using rest by (rule Cons.IH)
    then show ?thesis using False by (simp add: p)
  next
    case True
    have "\<exists>s. snd p = StateDict s" using Cons.prems True by (simp add: p)
    then obtain s where v: "v = StateDict s" by (auto simp: p)
    from registered_lookup [OF True] obtain c where c: "map_of cps key = Some c" ..
    from load_into_state [OF c, of s] obtain cps' where
      l: "load_into key (StateDict s) cps = Inr cps'" by auto
    then have k: "keys cps' = keys cps" by (rule load_into_keys)
    have "\<forall>q \<in> set entries. fst q \<in> set (keys cps') \<longrightarrow> (\<exists>s. snd q = StateDict s)"
      using rest by (simp add: k)
    then have ih: "fst (load_loop entries cps') = Inr ()" by (rule Cons.IH)
    show ?thesis using True l ih by (simp add: p v)
  qed
qed


lemma load_loop_restores:
  assumes "distinct (keys entries)"
      and "map_of entries name = Some (StateDict s)"
      and "map_of cps name = Some c"
      and "\<forall>p \<in> set entries. fst p \<in> set (keys cps) \<longrightarrow> (\<exists>s. snd p = StateDict s)"
  shows "\<exists>c'. map_of (snd (load_loop entries cps)) name = Some c' \<and> state_dict c' = s"
  using assms
proof (induction entries arbitrary: cps c)
  case Nil
  then show ?case by simp
next
  case (Cons p entries)
  obtain key v where p: "p = (key, v)" by (cases p)
  have d: "distinct (keys entries)" and fresh: "key \<notin> set (keys entries)"
    using Cons.prems(1) by (simp_all add: keys_def p)
  have rest: "\<forall>q \<in> set entries. fst q \<in> set (keys cps) \<longrightarrow> (\<exists>s. snd q = StateDict s)"
    using Cons.prems(4) by simp
  show ?case
  proof (cases "key = name")
    case True
    have v: "v = StateDict s" using Cons.prems(2) True by (simp add: p)
    have look: "map_of cps key = Some c" using Cons.prems(3) True by simp
    from load_into_state [OF look, of s] obtain cps' c' where
      l: "load_into key (StateDict s) cps = Inr cps'" and c': "map_of cps' key = Some c'"
      and s: "state_dict c' = s" by auto
    have reg: "key \<in> set (keys cps)" using look by (rule lookup_registered)
    have "name \<notin> set (keys entries)" using fresh True by simp
    then have "map_of (snd (load_loop entries cps')) name = map_of cps' name"
      by (rule load_loop_frame)
    then have "map_of (snd (load_loop entries cps')) name = Some c'"
      using c' True by simp
    then show ?thesis using reg l s by (simp add: p v)
  next
    case False
    have look: "map_of entries name = Some (StateDict s)"
      using Cons.prems(2) False by (simp add: p)
    show ?thesis
    proof (cases "key \<in> set (keys cps)")
      case nreg: False
      from Cons.IH [OF d look Cons.prems(3) rest] show ?thesis using nreg by (simp add: p)
    next
      case reg: True
      have "\<exists>s. snd p = StateDict s" using Cons.prems(4) reg by (simp add: p)
      then obtain s0 where v: "v = StateDict s0" by (auto simp: p)
      from registered_lookup [OF reg] obtain c0 where c0: "map_of cps key = Some c0" ..
      from load_into_state [OF c0, of s0] obtain cps' where
        l: "load_into key (StateDict s0) cps = Inr cps'" by auto
      from l have k: "keys cps' = keys cps" by (rule load_into_keys)
      have ne: "name \<noteq> key" using False by simp
      have "map_of cps' name = map_of cps name" using l ne by (rule load_into_other)
      then have c: "map_of cps' name = Some c" using Cons.prems(3) by simp
      have rest': "\<forall>q \<in> set entries. fst q \<in> set (keys cps') \<longrightarrow> (\<exists>s. snd q = StateDict s)"
        using rest by (simp add: k)
      from Cons.IH [OF d look c rest'] show ?thesis using reg l by (simp add: p v)
    qed
  qed
qed

lemma keys_state_dict_loop:
  "set (keys (state_dict_loop cps d)) = set (keys cps) \<union> set (keys d)"
proof (induction cps d rule: state_dict_loop.induct)
  case (1 d)
  show ?case by (simp add: keys_def)
next
  case (2 key c rest d)
  have "set (keys ((key, c) # rest)) = insert key (set (keys rest))" by (simp add: keys_def)
  then show ?case using "2.IH" by (simp add: keys_dict_set)
qed

lemma distinct_state_dict_loop:
  "distinct (keys d) \<Longrightarrow> distinct (keys (state_dict_loop cps d))"
  by (induction cps d rule: state_dict_loop.induct) (simp_all add: distinct_dict_set)

lemma values_dict_set:
  "\<forall>p \<in> set d. \<exists>s. snd p = StateDict s \<Longrightarrow>
   \<forall>p \<in> set (dict_set d key (StateDict x)). \<exists>s. snd p = StateDict s"
  by (induction d key "StateDict x" rule: dict_set.induct) simp_all

lemma values_state_dict_loop:
  "\<forall>p \<in> set d. \<exists>s. snd p = StateDict s \<Longrightarrow>
   \<forall>p \<in> set (state_dict_loop cps d). \<exists>s. snd p = StateDict s"
proof (induction cps d rule: state_dict_loop.induct)
  case (1 d)
  then show ?case by simp
next
  case (2 key c rest d)
  have "\<forall>p \<in> set (dict_set d key (StateDict (state_dict c))). \<exists>s. snd p = StateDict s"
    using "2.prems" by (rule values_dict_set)
  then have "\<forall>p \<in> set (state_dict_loop rest (dict_set d key (StateDict (state_dict c)))).
      \<exists>s. snd p = StateDict s"
    by (rule "2.IH")
  then show ?case by simp
qed

lemma map_of_state_dict_loop:
  "distinct (keys cps) \<Longrightarrow>
   map_of (state_dict_loop cps d) name =
     (case map_of cps name of None \<Rightarrow> map_of d name | Some c \<Rightarrow> Some (StateDict (state_dict c)))"
proof (induction cps d rule: state_dict_loop.induct)
  case (1 d)
  then show ?case by simp
next
  case (2 key c rest d)
  have d: "distinct (keys rest)" and fresh: "key \<notin> set (keys rest)"
    using "2.prems" by (simp_all add: keys_def)
  have none: "map_of rest key = None"
    using fresh by (simp add: map_of_eq_None_iff keys_def)
  show ?case using "2.IH" [OF d] none
    by (simp add: map_of_dict_set split: option.splits)
qed

lemma step_writes:
  "disk (snd (step i metric m)) (checkpoint_path (serialization_dir m) i) =
     Some (dict_set (state_dict_all m) ''iteration'' (PInt i))"
  using checkpoint_path_not_best [of "serialization_dir m" i]
  by (auto simp: step_def Let_def remove_earliest_checkpoint_def split: option.splits list.splits)

lemma keys_filter: "set (keys (filter (\<lambda>p. fst p \<noteq> k) d)) = set (keys d) - {k}"
  by (auto simp: keys_def)

lemma distinct_filter_keys: "distinct (keys d) \<Longrightarrow> distinct (keys (filter P d))"
  by (simp add: keys_def distinct_map_filter)

lemma map_of_filter_key:
  "map_of (filter (\<lambda>p. fst p \<noteq> k) d) name = (if name = k then None else map_of d name)"
  by (induction d) auto



lemma set_dict_set: "set (dict_set d k v) \<subseteq> insert (k, v) (set d)"
  by (induction d k v rule: dict_set.induct) auto

lemma load_checkpointables:
  "disk m path = Some ckpt \<Longrightarrow>
   checkpointables (snd (load path m)) =
     snd (load_loop (filter (\<lambda>p. fst p \<noteq> ''iteration'') ckpt) (checkpointables m))"
  by (simp add: load_def dict_pop_def Let_def split: sum.splits)

lemma load_result:
  "disk m path = Some ckpt \<Longrightarrow>
   fst (load_loop (filter (\<lambda>p. fst p \<noteq> ''iteration'') ckpt) (checkpointables m)) = Inr () \<Longrightarrow>
   fst (load path m) = Inr (case map_of ckpt ''iteration'' of None \<Rightarrow> PInt (- 1) | Some i \<Rightarrow> i)"
  by (simp add: load_def dict_pop_def Let_def)

text \<open>
  Claim C6: a registered checkpointable whose name is not among the keys of the
  serialized file is left as it was by \<open>load\<close>, whether \<open>load\<close> returns or raises
  on some other entry.
\<close>

theorem load_leaves_unmatched_untouched:
  assumes "disk m path = Some ckpt" and "name \<notin> set (keys ckpt)"
  shows "map_of (checkpointables (snd (load path m))) name = map_of (checkpointables m) name"
proof -
  have "name \<notin> set (keys (filter (\<lambda>p. fst p \<noteq> ''iteration'') ckpt))"
    using assms(2) by (simp add: keys_filter)
  then have "map_of (snd (load_loop (filter (\<lambda>p. fst p \<noteq> ''iteration'') ckpt) (checkpointables m))) name
      = map_of (checkpointables m) name"
    by (rule load_loop_frame)
  then show ?thesis using load_checkpointables [OF assms(1)] by simp
qed

text \<open>
  Claim C7: \<open>load\<close> returns the value stored under \<open>"iteration"\<close>, and \<open>-1\<close> when the
  file has no such entry. \<open>load\<close> returns (rather than raises) when the file exists and
  every entry it matches with a registered checkpointable holds a state dict, which is so
  for every file written by \<open>step\<close>.
\<close>

theorem load_returns_iteration:
  assumes "disk m path = Some ckpt"
      and "\<forall>p \<in> set ckpt. fst p \<noteq> ''iteration'' \<longrightarrow> fst p \<in> set (keys (checkpointables m)) \<longrightarrow>
             (\<exists>s. snd p = StateDict s)"
  shows "fst (load path m) =
           Inr (case map_of ckpt ''iteration'' of None \<Rightarrow> PInt (- 1) | Some i \<Rightarrow> i)"
proof -
  have "\<forall>p \<in> set (filter (\<lambda>p. fst p \<noteq> ''iteration'') ckpt).
          fst p \<in> set (keys (checkpointables m)) \<longrightarrow> (\<exists>s. snd p = StateDict s)"
    using assms(2) by simp
  then have "fst (load_loop (filter (\<lambda>p. fst p \<noteq> ''iteration'') ckpt) (checkpointables m)) = Inr ()"
    by (rule load_loop_returns)
  with assms(1) show ?thesis by (rule load_result)
qed

text \<open>
  Claim C9: the key \<open>"iteration"\<close> of the file written by \<open>step(i)\<close> holds the integer
  \<open>i\<close>, also when a checkpointable is registered under that name (its state dict is
  replaced), and \<open>load\<close> never changes the checkpointable registered as \<open>"iteration"\<close>,
  whatever the file: the key is popped before the names are matched.
\<close>

theorem iteration_name_is_reserved:
  "(\<exists>ckpt. disk (snd (step i metric m)) (checkpoint_path (serialization_dir m) i) = Some ckpt
       \<and> map_of ckpt ''iteration'' = Some (PInt i))
   \<and> map_of (checkpointables (snd (load path m'))) ''iteration''
       = map_of (checkpointables m') ''iteration''"
proof
  show "\<exists>ckpt. disk (snd (step i metric m)) (checkpoint_path (serialization_dir m) i) = Some ckpt
       \<and> map_of ckpt ''iteration'' = Some (PInt i)"
    by (simp add: step_writes map_of_dict_set)
next
  show "map_of (checkpointables (snd (load path m'))) ''iteration''
       = map_of (checkpointables m') ''iteration''"
  proof (cases "disk m' path")
    case None
    then show ?thesis by (simp add: load_def)
  next
    case (Some ckpt)
    have "''iteration'' \<notin> set (keys (filter (\<lambda>p. fst p \<noteq> ''iteration'') ckpt))"
      by (simp add: keys_filter)
    then have "map_of (snd (load_loop (filter (\<lambda>p. fst p \<noteq> ''iteration'') ckpt) (checkpointables m')))
        ''iteration'' = map_of (checkpointables m') ''iteration''"
      by (rule load_loop_frame)
    then show ?thesis using load_checkpointables [OF Some] by simp
  qed
qed

text \<open>
  Claim C5, amended: after \<open>step(i)\<close>, \<open>load\<close> of \<open>checkpoint_<i>.pth\<close> into any manager
  that sees the file returns \<open>i\<close> and gives every checkpointable that was registered
  under a name other than \<open>"iteration"\<close>, and still is, the state dict it had when
  \<open>step\<close> ran. The registry is a dict: its keys are distinct.
\<close>

theorem step_load_roundtrip:
  assumes dist: "distinct (keys (checkpointables m))"
      and same: "disk m' (checkpoint_path (serialization_dir m) i)
                   = disk (snd (step i metric m)) (checkpoint_path (serialization_dir m) i)"
      and reg: "map_of (checkpointables m) name = Some c"
      and ne: "name \<noteq> ''iteration''"
      and reg': "map_of (checkpointables m') name = Some c0"
  shows "fst (load (checkpoint_path (serialization_dir m) i) m') = Inr (PInt i)
         \<and> (\<exists>c'. map_of (checkpointables (snd (load (checkpoint_path (serialization_dir m) i) m')))
                    name = Some c'
                 \<and> state_dict c' = state_dict c)"
proof -
  let ?path = "checkpoint_path (serialization_dir m) i"
  let ?sd = "state_dict_all m"
  let ?ckpt = "dict_set ?sd ''iteration'' (PInt i)"
  let ?entries = "filter (\<lambda>p. fst p \<noteq> ''iteration'') ?ckpt"
  have written: "disk m' ?path = Some ?ckpt" using same by (simp add: step_writes)
  have dsd: "distinct (keys ?sd)"
    unfolding state_dict_all_def by (rule distinct_state_dict_loop) (simp add: keys_def)
  have dent: "distinct (keys ?entries)"
    by (rule distinct_filter_keys) (rule distinct_dict_set [OF dsd])
  have vsd: "\<forall>p \<in> set ?sd. \<exists>s. snd p = StateDict s"
    unfolding state_dict_all_def by (rule values_state_dict_loop) simp
  have vent: "\<forall>p \<in> set ?entries. \<exists>s. snd p = StateDict s"
  proof
    fix p assume "p \<in> set ?entries"
    then have "p \<in> set ?ckpt" and k: "fst p \<noteq> ''iteration''" by simp_all
    then have "p \<in> insert (''iteration'', PInt i) (set ?sd)"
      using set_dict_set [of ?sd "''iteration''" "PInt i"] by blast
    with k have "p \<in> set ?sd" by auto
    with vsd show "\<exists>s. snd p = StateDict s" by simp
  qed
  then have vent': "\<forall>p \<in> set ?entries. fst p \<in> set (keys (checkpointables m')) \<longrightarrow>
      (\<exists>s. snd p = StateDict s)" by simp
  have look: "map_of ?entries name = Some (StateDict (state_dict c))"
    using ne reg
    by (simp add: map_of_filter_key map_of_dict_set state_dict_all_def
        map_of_state_dict_loop [OF dist])
  have ok: "fst (load_loop ?entries (checkpointables m')) = Inr ()"
    using vent' by (rule load_loop_returns)
  have "fst (load ?path m') =
      Inr (case map_of ?ckpt ''iteration'' of None \<Rightarrow> PInt (- 1) | Some i \<Rightarrow> i)"
    using written ok by (rule load_result)
  then have r: "fst (load ?path m') = Inr (PInt i)" by (simp add: map_of_dict_set)
  from load_loop_restores [OF dent look reg' vent']
  obtain c' where "map_of (snd (load_loop ?entries (checkpointables m'))) name = Some c'"
    and "state_dict c' = state_dict c" by auto
  then have "\<exists>c'. map_of (checkpointables (snd (load ?path m'))) name = Some c'
      \<and> state_dict c' = state_dict c"
    using load_checkpointables [OF written] by simp
  with r show ?thesis by simp
qed


theorem load_leaves_unmatched_untouched_witness:
  "disk (init ''/tmp'' 10 [(''model'', Plain (1::nat)), (''optimizer'', Plain 2)]
           [''/tmp/checkpoint_3.pth'' \<mapsto> [(''model'', StateDict 9), (''iteration'', PInt 3)]])
     ''/tmp/checkpoint_3.pth'' = Some [(''model'', StateDict 9), (''iteration'', PInt 3)]
   \<and> ''optimizer'' \<notin> set (keys [(''model'', StateDict (9::nat)), (''iteration'', PInt 3)])
   \<and> map_of (checkpointables (snd (load ''/tmp/checkpoint_3.pth''
        (init ''/tmp'' 10 [(''model'', Plain (1::nat)), (''optimizer'', Plain 2)]
           [''/tmp/checkpoint_3.pth'' \<mapsto> [(''model'', StateDict 9), (''iteration'', PInt 3)]]))))
        ''optimizer'' = Some (Plain 2)"
proof -
  let ?ckpt = "[(''model'', StateDict (9::nat)), (''iteration'', PInt 3)]"
  let ?m = "init ''/tmp'' 10 [(''model'', Plain (1::nat)), (''optimizer'', Plain 2)]
              [''/tmp/checkpoint_3.pth'' \<mapsto> ?ckpt]"
  have h1: "disk ?m ''/tmp/checkpoint_3.pth'' = Some ?ckpt" by (simp add: init_def)
  have h2: "''optimizer'' \<notin> set (keys ?ckpt)" by (simp add: keys_def)
  have "map_of (checkpointables (snd (load ''/tmp/checkpoint_3.pth'' ?m))) ''optimizer''
      = map_of (checkpointables ?m) ''optimizer''"
    using h1 h2 by (rule load_leaves_unmatched_untouched)
  also have "\<dots> = Some (Plain 2)" by (simp add: init_def)
  finally have c: "map_of (checkpointables (snd (load ''/tmp/checkpoint_3.pth'' ?m))) ''optimizer''
      = Some (Plain 2)" .
  from h1 h2 c show ?thesis by (intro conjI)
qed

theorem load_returns_iteration_witness:
  "fst (load ''/tmp/checkpoint_3.pth''
          (init ''/tmp'' 10 [(''model'', Plain (1::nat))]
             [''/tmp/checkpoint_3.pth'' \<mapsto> [(''model'', StateDict 9), (''iteration'', PInt 3)]]))
     = Inr (PInt 3)
   \<and> fst (load ''/tmp/other.pth''
          (init ''/tmp'' 10 [(''model'', Plain (1::nat))]
             [''/tmp/other.pth'' \<mapsto> [(''model'', StateDict 9)]]))
     = Inr (PInt (- 1))"
proof -
  let ?c1 = "[(''model'', StateDict (9::nat)), (''iteration'', PInt 3)]"
  let ?m1 = "init ''/tmp'' 10 [(''model'', Plain (1::nat))] [''/tmp/checkpoint_3.pth'' \<mapsto> ?c1]"
  let ?c2 = "[(''model'', StateDict (9::nat))]"
  let ?m2 = "init ''/tmp'' 10 [(''model'', Plain (1::nat))] [''/tmp/other.pth'' \<mapsto> ?c2]"
  have a1: "disk ?m1 ''/tmp/checkpoint_3.pth'' = Some ?c1" by (simp add: init_def)
  have b1: "\<forall>p \<in> set ?c1. fst p \<noteq> ''iteration'' \<longrightarrow> fst p \<in> set (keys (checkpointables ?m1)) \<longrightarrow>
             (\<exists>s. snd p = StateDict s)" by simp
  have a2: "disk ?m2 ''/tmp/other.pth'' = Some ?c2" by (simp add: init_def)
  have b2: "\<forall>p \<in> set ?c2. fst p \<noteq> ''iteration'' \<longrightarrow> fst p \<in> set (keys (checkpointables ?m2)) \<longrightarrow>
             (\<exists>s. snd p = StateDict s)" by simp
  have r1: "fst (load ''/tmp/checkpoint_3.pth'' ?m1) = Inr (PInt 3)"
    using load_returns_iteration [OF a1 b1] by simp
  have r2: "fst (load ''/tmp/other.pth'' ?m2) = Inr (PInt (- 1))"
    using load_returns_iteration [OF a2 b2] by simp
  from r1 r2 show ?thesis by (intro conjI)
qed

theorem iteration_name_is_reserved_witness:
  "(\<exists>ckpt. disk (snd (step 5 None (init ''/tmp'' 10 [(''iteration'', Plain (4::nat))] Map.empty)))
        (checkpoint_path (serialization_dir (init ''/tmp'' 10 [(''iteration'', Plain (4::nat))] Map.empty)) 5)
          = Some ckpt
       \<and> map_of ckpt ''iteration'' = Some (PInt 5))
   \<and> map_of (checkpointables (snd (load ''/tmp/checkpoint_5.pth''
        (snd (step 5 None (init ''/tmp'' 10 [(''iteration'', Plain (4::nat))] Map.empty))))))
        ''iteration''
       = map_of (checkpointables (snd (step 5 None (init ''/tmp'' 10 [(''iteration'', Plain (4::nat))] Map.empty))))
           ''iteration''"
  by (rule iteration_name_is_reserved)

theorem step_load_roundtrip_witness:
  "fst (load ''/tmp/checkpoint_3.pth''
          (init ''/tmp'' 10 [(''model'', Plain (7::nat)), (''optimizer'', DataParallel 8)]
             (disk (snd (step 3 None
                (init ''/tmp'' 10 [(''model'', Plain 1), (''optimizer'', DataParallel 2)] Map.empty))))))
     = Inr (PInt 3)
   \<and> (\<exists>c'. map_of (checkpointables (snd (load ''/tmp/checkpoint_3.pth''
          (init ''/tmp'' 10 [(''model'', Plain (7::nat)), (''optimizer'', DataParallel 8)]
             (disk (snd (step 3 None
                (init ''/tmp'' 10 [(''model'', Plain 1), (''optimizer'', DataParallel 2)] Map.empty))))))))
          ''optimizer'' = Some c'
        \<and> state_dict c' = 2)"
proof -
  let ?m = "init ''/tmp'' 10 [(''model'', Plain (1::nat)), (''optimizer'', DataParallel 2)] Map.empty"
  let ?m' = "init ''/tmp'' 10 [(''model'', Plain (7::nat)), (''optimizer'', DataParallel 8)]
               (disk (snd (step 3 None ?m)))"
  have p: "checkpoint_path (serialization_dir ?m) 3 = ''/tmp/checkpoint_3.pth''"
    by (simp add: checkpoint_path_def init_def str_int_def str_nat.simps digit_def)
  have h1: "distinct (keys (checkpointables ?m))" by (simp add: init_def keys_def)
  have h2: "disk ?m' (checkpoint_path (serialization_dir ?m) 3)
      = disk (snd (step 3 None ?m)) (checkpoint_path (serialization_dir ?m) 3)"
    by (simp add: init_def)
  have h3: "map_of (checkpointables ?m) ''optimizer'' = Some (DataParallel 2)"
    by (simp add: init_def)
  have h4: "''optimizer'' \<noteq> ''iteration''" by simp
  have h5: "map_of (checkpointables ?m') ''optimizer'' = Some (DataParallel 8)"
    by (simp add: init_def)
  from step_load_roundtrip [OF h1 h2 h3 h4 h5] show ?thesis
    unfolding p by simp
qed

text \<open>
  Claim C5 as stated covers every registered name that appears in the file. The name
  \<open>"iteration"\<close> appears in every file, yet a checkpointable registered under it is not
  restored: its state was 1 when \<open>step(5)\<close> ran, is 2 when the file is loaded, and is
  still 2 afterwards.
\<close>

theorem step_load_roundtrip_counterexample:
  "disk (snd (step 5 None (init ''/tmp'' 10 [(''iteration'', Plain (1::nat))] Map.empty)))
     ''/tmp/checkpoint_5.pth'' = Some [(''iteration'', PInt 5)]
   \<and> fst (load ''/tmp/checkpoint_5.pth''
        (init ''/tmp'' 10 [(''iteration'', Plain (2::nat))]
           (disk (snd (step 5 None (init ''/tmp'' 10 [(''iteration'', Plain (1::nat))] Map.empty))))))
       = Inr (PInt 5)
   \<and> map_of (checkpointables (snd (load ''/tmp/checkpoint_5.pth''
        (init ''/tmp'' 10 [(''iteration'', Plain (2::nat))]
           (disk (snd (step 5 None (init ''/tmp'' 10 [(''iteration'', Plain (1::nat))] Map.empty))))))))
        ''iteration'' = Some (Plain 2)
   \<and> state_dict (Plain (2::nat)) \<noteq> state_dict (Plain (1::nat))"
  by (simp add: step_def init_def state_dict_all_def checkpoint_path_def best_path_def
      str_int_small Let_def load_def dict_pop_def keys_def)

section \<open>Evaluator: modes, batches and metrics\<close>

lemma training_train [simp]: "training (train mode m) = mode"
  by (cases m) simp

lemma get_metrics_train [simp]: "get_metrics (train mode m) = get_metrics m"
  by (cases m) simp

lemma module_train:
  "module (train mode m) = map_option (train_wrapped mode) (module m)"
  by (cases m) simp

lemma w_training_train_wrapped [simp]: "w_training (train_wrapped mode w) = mode"
  by (cases w) simp

lemma w_get_metrics_train_wrapped [simp]: "w_get_metrics (train_wrapped mode w) = w_get_metrics w"
  by (cases w) simp

lemma evaluate_returns:
  assumes "fst (evaluate do_it to dataloader num_batches ev) = Inr eval_metrics"
  shows "fst (batch_loop do_it to num_batches 0 dataloader
            (ev\<lparr>models := map (\<lambda>(model_name, m). (model_name, eval m)) (models ev)\<rparr>)) = Inr ()"
    and "models (snd (evaluate do_it to dataloader num_batches ev)) =
           map (\<lambda>(model_name, m). (model_name, train True m))
             (models (snd (batch_loop do_it to num_batches 0 dataloader
               (ev\<lparr>models := map (\<lambda>(model_name, m). (model_name, eval m)) (models ev)\<rparr>))))"
    and "calls (snd (evaluate do_it to dataloader num_batches ev)) =
           calls (snd (batch_loop do_it to num_batches 0 dataloader
               (ev\<lparr>models := map (\<lambda>(model_name, m). (model_name, eval m)) (models ev)\<rparr>)))"
    and "eval_metrics = metrics_loop
             (models (snd (batch_loop do_it to num_batches 0 dataloader
               (ev\<lparr>models := map (\<lambda>(model_name, m). (model_name, eval m)) (models ev)\<rparr>)))) []"
  using assms by (auto simp: evaluate_def Let_def split: sum.splits)

text \<open>
  Claim C4: when \<open>evaluate\<close> returns, every model of the registry is in training mode,
  and so is the module wrapped by a \<open>DataParallel\<close>; what \<open>get_metrics\<close> the models
  have plays no part. (When \<open>_do_iteration\<close> raises, \<open>evaluate\<close> raises with it and
  the last loop is not reached.)
\<close>

theorem evaluate_leaves_training_mode:
  assumes "fst (evaluate do_it to dataloader num_batches ev) = Inr eval_metrics"
  shows "\<forall>p \<in> set (models (snd (evaluate do_it to dataloader num_batches ev))).
           training (snd p) \<and> (\<forall>w. module (snd p) = Some w \<longrightarrow> w_training w)"
  unfolding evaluate_returns(2) [OF assms]
  by (auto simp: module_train)

text \<open>
  Claim C3, amended: when \<open>evaluate\<close> returns, every model is in training mode, so the
  mode of a model equals the mode it had before the call exactly when it was in training
  mode before the call.
\<close>

theorem evaluate_mode_equals_prior_iff_training:
  assumes "fst (evaluate do_it to dataloader num_batches ev) = Inr eval_metrics"
      and "(name, m) \<in> set (models ev)"
      and "(name, m') \<in> set (models (snd (evaluate do_it to dataloader num_batches ev)))"
  shows "training m' \<and> ((training m' = training m) = training m)"
proof -
  have "training m'"
    using assms(3) unfolding evaluate_returns(2) [OF assms(1)] by auto
  then show ?thesis by simp
qed

lemma batch_loop_calls:
  "fst (batch_loop do_it to (Some n) i batches ev) = Inr () \<Longrightarrow>
   calls (snd (batch_loop do_it to (Some n) i batches ev)) =
     calls ev @ map (map (\<lambda>(key, t). (key, to t)))
       (take (nat (max (n + 2 - int i) 1)) batches)"
proof (induction batches arbitrary: i ev)
  case Nil
  then show ?case by simp
next
  case (Cons batch rest)
  let ?b = "map (\<lambda>(key, t). (key, to t)) batch"
  let ?ev1 = "ev\<lparr>calls := calls ev @ [?b]\<rparr>"
  obtain ms where ms: "do_it ?b (models ev) = Inr ms"
    using Cons.prems by (cases "do_it ?b (models ev)") (simp_all add: Let_def)
  let ?ev2 = "?ev1\<lparr>models := ms\<rparr>"
  show ?case
  proof (cases "int i > n")
    case True
    then have "nat (max (n + 2 - int i) 1) = Suc 0" by simp
    then show ?thesis using True ms by (simp add: Let_def)
  next
    case False
    then have k: "nat (max (n + 2 - int i) 1) = Suc (nat (max (n + 2 - int (i + 1)) 1))"
      by simp
    have step: "batch_loop do_it to (Some n) i (batch # rest) ev =
        batch_loop do_it to (Some n) (i + 1) rest ?ev2"
      using False ms by (simp add: Let_def)
    have "fst (batch_loop do_it to (Some n) (i + 1) rest ?ev2) = Inr ()"
      using Cons.prems unfolding step .
    then have "calls (snd (batch_loop do_it to (Some n) (i + 1) rest ?ev2)) =
        calls ?ev2 @ map (map (\<lambda>(key, t). (key, to t)))
          (take (nat (max (n + 2 - int (i + 1)) 1)) rest)"
      by (rule Cons.IH)
    then show ?thesis unfolding step k by simp
  qed
qed

text \<open>
  Claim C10, amended: when \<open>evaluate(num_batches=n)\<close> returns, the batches handed to
  \<open>_do_iteration\<close> are the first \<open>max(n + 2, 1)\<close> batches of the data loader, or all
  of them when there are fewer: \<open>min(B, n + 2)\<close> batches for \<open>n \<ge> -1\<close>, and
  \<open>min(B, 1)\<close> for \<open>n < -1\<close>, since the first batch is processed before the limit
  is tested.
\<close>

theorem evaluate_processed_batches:
  assumes "fst (evaluate do_it to dataloader (Some n) ev) = Inr eval_metrics"
  shows "calls (snd (evaluate do_it to dataloader (Some n) ev)) =
           calls ev @ map (map (\<lambda>(key, t). (key, to t))) (take (nat (max (n + 2) 1)) dataloader)
         \<and> length (calls (snd (evaluate do_it to dataloader (Some n) ev))) =
           length (calls ev) + min (length dataloader) (nat (max (n + 2) 1))"
proof -
  let ?ev1 = "ev\<lparr>models := map (\<lambda>(model_name, m). (model_name, eval m)) (models ev)\<rparr>"
  have "fst (batch_loop do_it to (Some n) 0 dataloader ?ev1) = Inr ()"
    using assms by (rule evaluate_returns(1))
  then have "calls (snd (batch_loop do_it to (Some n) 0 dataloader ?ev1)) =
      calls ?ev1 @ map (map (\<lambda>(key, t). (key, to t)))
        (take (nat (max (n + 2 - int 0) 1)) dataloader)"
    by (rule batch_loop_calls)
  then have c: "calls (snd (evaluate do_it to dataloader (Some n) ev)) =
      calls ev @ map (map (\<lambda>(key, t). (key, to t))) (take (nat (max (n + 2) 1)) dataloader)"
    unfolding evaluate_returns(3) [OF assms] by simp
  show ?thesis unfolding c by simp
qed

lemma map_of_metrics_loop:
  "distinct (keys ms) \<Longrightarrow>
   map_of (metrics_loop ms eval_metrics) name =
     (case map_of ms name of
        None \<Rightarrow> map_of eval_metrics name
      | Some m \<Rightarrow>
          (case get_metrics m of
             Some x \<Rightarrow> Some x
           | None \<Rightarrow>
               (case module m of
                  Some w \<Rightarrow>
                    (case w_get_metrics w of Some x \<Rightarrow> Some x | None \<Rightarrow> map_of eval_metrics name)
                | None \<Rightarrow> map_of eval_metrics name)))"
proof (induction ms arbitrary: eval_metrics)
  case Nil
  show ?case by simp
next
  case (Cons p rest)
  obtain model_name m where p: "p = (model_name, m)" by (cases p)
  have d: "distinct (keys rest)" and fresh: "model_name \<notin> set (keys rest)"
    using Cons.prems by (simp_all add: keys_def p)
  have none: "map_of rest model_name = None"
    using fresh by (simp add: map_of_eq_None_iff keys_def)
  note ih = Cons.IH [OF d]
  show ?case
  proof (cases "name = model_name")
    case True
    note ih' = ih [unfolded True]
    show ?thesis
      by (simp add: p True ih' none map_of_dict_set split: option.splits)
  next
    case False
    then show ?thesis
      by (simp add: p ih map_of_dict_set split: option.splits)
  qed
qed

lemma keys_map_values: "keys (map (\<lambda>(k, v). (k, f v)) d) = keys d"
  by (induction d) (auto simp: keys_def)

lemma map_of_map_values:
  "map_of (map (\<lambda>(k, v). (k, f v)) d) name = map_option f (map_of d name)"
  by (induction d) auto

text \<open>
  Claim C8: when the loop over the batches raises nothing, \<open>evaluate\<close> returns, whatever
  capabilities the models have, and the mapping it returns has, for each model name, the
  metrics of the model when the model has \<open>get_metrics\<close>, else those of the wrapped
  module when the model is a \<open>DataParallel\<close> whose module has \<open>get_metrics\<close>, and no
  entry otherwise. The registry is a dict: its keys are distinct.
\<close>

theorem evaluate_metrics_follow_capability:
  assumes loop: "fst (batch_loop do_it to num_batches 0 dataloader
            (ev\<lparr>models := map (\<lambda>(model_name, m). (model_name, eval m)) (models ev)\<rparr>)) = Inr ()"
      and dist: "distinct (keys (models (snd (evaluate do_it to dataloader num_batches ev))))"
  shows "\<exists>eval_metrics. fst (evaluate do_it to dataloader num_batches ev) = Inr eval_metrics
         \<and> (\<forall>name. map_of eval_metrics name =
              (case map_of (models (snd (evaluate do_it to dataloader num_batches ev))) name of
                 None \<Rightarrow> None
               | Some m \<Rightarrow>
                   (case get_metrics m of
                      Some x \<Rightarrow> Some x
                    | None \<Rightarrow>
                        (case module m of
                           Some w \<Rightarrow> w_get_metrics w
                         | None \<Rightarrow> None))))"
proof -
  let ?ev1 = "ev\<lparr>models := map (\<lambda>(model_name, m). (model_name, eval m)) (models ev)\<rparr>"
  let ?ms = "models (snd (batch_loop do_it to num_batches 0 dataloader ?ev1))"
  let ?em = "metrics_loop ?ms []"
  have r: "fst (evaluate do_it to dataloader num_batches ev) = Inr ?em"
    using loop by (simp add: evaluate_def Let_def)
  have after: "models (snd (evaluate do_it to dataloader num_batches ev)) =
      map (\<lambda>(model_name, m). (model_name, train True m)) ?ms"
    using r by (rule evaluate_returns(2))
  have d: "distinct (keys ?ms)"
    using dist unfolding after keys_map_values .
  have "map_of ?em name =
      (case map_of (models (snd (evaluate do_it to dataloader num_batches ev))) name of
         None \<Rightarrow> None
       | Some m \<Rightarrow>
           (case get_metrics m of
              Some x \<Rightarrow> Some x
            | None \<Rightarrow> (case module m of Some w \<Rightarrow> w_get_metrics w | None \<Rightarrow> None)))" for name
    unfolding after map_of_map_values map_of_metrics_loop [OF d]
    by (simp add: module_train split: option.splits)
  with r show ?thesis by blast
qed

text \<open>What the concrete runs below unfold.\<close>

lemmas run_simps = evaluate_def do_iteration_def eval_def Let_def keys_def

text \<open>
  Claim C3 as stated: the mode after \<open>evaluate\<close> equals the mode before. A model that is
  in eval mode before the call is in training mode after it.
\<close>

theorem evaluate_mode_counterexample:
  "map (\<lambda>p. training (snd p)) [(''model'', Model False (None::nat option) None)] = [False]
   \<and> fst (evaluate (do_iteration (\<lambda>m b. Inr m)) id [[(''x'', 1::nat)]] None
        \<lparr>models = [(''model'', Model False (None::nat option) None)], calls = []\<rparr>) = Inr []
   \<and> map (\<lambda>p. training (snd p))
        (models (snd (evaluate (do_iteration (\<lambda>m b. Inr m)) id [[(''x'', 1::nat)]] None
           \<lparr>models = [(''model'', Model False (None::nat option) None)], calls = []\<rparr>)))
       = [True]"
  by (simp add: run_simps)

theorem evaluate_mode_equals_prior_iff_training_witness:
  "fst (evaluate (do_iteration (\<lambda>m b. Inr m)) id [[(''x'', 1::nat)]] None
        \<lparr>models = [(''model'', Model True (Some (5::nat)) None)], calls = []\<rparr>) = Inr [(''model'', 5)]
   \<and> (''model'', Model True (Some (5::nat)) None)
        \<in> set (models \<lparr>models = [(''model'', Model True (Some (5::nat)) None)],
                        calls = ([] :: (string \<times> nat) list list)\<rparr>)
   \<and> (''model'', Model True (Some (5::nat)) None)
        \<in> set (models (snd (evaluate (do_iteration (\<lambda>m b. Inr m)) id [[(''x'', 1::nat)]] None
             \<lparr>models = [(''model'', Model True (Some (5::nat)) None)], calls = []\<rparr>)))
   \<and> training (Model True (Some (5::nat)) None)
   \<and> ((training (Model True (Some (5::nat)) None) = training (Model True (Some (5::nat)) None))
        = training (Model True (Some (5::nat)) None))"
proof -
  let ?ev = "\<lparr>models = [(''model'', Model True (Some (5::nat)) None)],
              calls = ([] :: (string \<times> nat) list list)\<rparr>"
  let ?run = "evaluate (do_iteration (\<lambda>m b. Inr m)) id [[(''x'', 1::nat)]] None ?ev"
  have h1: "fst ?run = Inr [(''model'', 5)]" by (simp add: run_simps)
  have h2: "(''model'', Model True (Some (5::nat)) None) \<in> set (models ?ev)" by simp
  have h3: "(''model'', Model True (Some (5::nat)) None) \<in> set (models (snd ?run))"
    by (simp add: run_simps)
  from evaluate_mode_equals_prior_iff_training [OF h1 h2 h3] h1 h2 h3
  show ?thesis by (intro conjI) simp_all
qed

theorem evaluate_leaves_training_mode_witness:
  "fst (evaluate (do_iteration (\<lambda>m b. Inr m)) id [[(''x'', 1::nat)]] None
        \<lparr>models = [(''model'', Model False (None::nat option) None),
                    (''dp'', Model False None (Some (Wrapped False (Some 7))))],
          calls = []\<rparr>) = Inr [(''dp'', 7)]
   \<and> (''dp'', Model True None (Some (Wrapped True (Some (7::nat)))))
        \<in> set (models (snd (evaluate (do_iteration (\<lambda>m b. Inr m)) id [[(''x'', 1::nat)]] None
             \<lparr>models = [(''model'', Model False (None::nat option) None),
                         (''dp'', Model False None (Some (Wrapped False (Some 7))))],
               calls = []\<rparr>)))
   \<and> training (snd (''dp'', Model True None (Some (Wrapped True (Some (7::nat))))))"
proof -
  let ?ev = "\<lparr>models = [(''model'', Model False (None::nat option) None),
                        (''dp'', Model False None (Some (Wrapped False (Some 7))))],
              calls = ([] :: (string \<times> nat) list list)\<rparr>"
  let ?run = "evaluate (do_iteration (\<lambda>m b. Inr m)) id [[(''x'', 1::nat)]] None ?ev"
  have h: "fst ?run = Inr [(''dp'', 7)]" by (simp add: run_simps)
  have mem: "(''dp'', Model True None (Some (Wrapped True (Some (7::nat))))) \<in> set (models (snd ?run))"
    by (simp add: run_simps)
  from bspec [OF evaluate_leaves_training_mode [OF h] mem]
  have t: "training (snd (''dp'', Model True None (Some (Wrapped True (Some (7::nat))))))"
    by (rule conjunct1)
  from h mem t show ?thesis by (intro conjI)
qed

theorem evaluate_processed_batches_witness:
  "fst (evaluate (do_iteration (\<lambda>m b. Inr m)) id
          [[(''x'', 1::nat)], [(''x'', 2)], [(''x'', 3)], [(''x'', 4)]] (Some 1)
          \<lparr>models = [(''model'', Model True (None::nat option) None)], calls = []\<rparr>) = Inr []
   \<and> length (calls (snd (evaluate (do_iteration (\<lambda>m b. Inr m)) id
          [[(''x'', 1::nat)], [(''x'', 2)], [(''x'', 3)], [(''x'', 4)]] (Some 1)
          \<lparr>models = [(''model'', Model True (None::nat option) None)], calls = []\<rparr>))) = 3
   \<and> fst (evaluate (do_iteration (\<lambda>m b. Inr m)) id
          [[(''x'', 1::nat)], [(''x'', 2)]] (Some (- 5))
          \<lparr>models = [(''model'', Model True (None::nat option) None)], calls = []\<rparr>) = Inr []
   \<and> length (calls (snd (evaluate (do_iteration (\<lambda>m b. Inr m)) id
          [[(''x'', 1::nat)], [(''x'', 2)]] (Some (- 5))
          \<lparr>models = [(''model'', Model True (None::nat option) None)], calls = []\<rparr>))) = 1"
proof -
  let ?ev = "\<lparr>models = [(''model'', Model True (None::nat option) None)],
              calls = ([] :: (string \<times> nat) list list)\<rparr>"
  let ?run1 = "evaluate (do_iteration (\<lambda>m b. Inr m)) id
          [[(''x'', 1::nat)], [(''x'', 2)], [(''x'', 3)], [(''x'', 4)]] (Some 1) ?ev"
  let ?run2 = "evaluate (do_iteration (\<lambda>m b. Inr m)) id
          [[(''x'', 1::nat)], [(''x'', 2)]] (Some (- 5)) ?ev"
  have h1: "fst ?run1 = Inr []" by (simp add: run_simps)
  have h2: "fst ?run2 = Inr []" by (simp add: run_simps)
  have c1: "length (calls (snd ?run1)) = 3"
    using conjunct2 [OF evaluate_processed_batches [OF h1]] by simp
  have c2: "length (calls (snd ?run2)) = 1"
    using conjunct2 [OF evaluate_processed_batches [OF h2]] by simp
  from h1 c1 h2 c2 show ?thesis by (intro conjI)
qed

text \<open>
  Claim C10 as stated gives \<open>min(B, n + 2)\<close> for every \<open>n\<close>. With \<open>n = -2\<close> and one
  batch that is 0, and one batch is processed.
\<close>

theorem evaluate_processed_batches_counterexample:
  "fst (evaluate (do_iteration (\<lambda>m b. Inr m)) id [[(''x'', 1::nat)]] (Some (- 2))
          \<lparr>models = [(''model'', Model True (None::nat option) None)], calls = []\<rparr>) = Inr []
   \<and> calls (snd (evaluate (do_iteration (\<lambda>m b. Inr m)) id [[(''x'', 1::nat)]] (Some (- 2))
          \<lparr>models = [(''model'', Model True (None::nat option) None)], calls = []\<rparr>))
       = [[(''x'', 1)]]
   \<and> min (int (length [[(''x'', 1::nat)]])) (- 2 + 2) = 0"
  by (simp add: run_simps)

theorem evaluate_metrics_follow_capability_witness:
  "fst (batch_loop (do_iteration (\<lambda>m b. Inr m)) id None 0 [[(''x'', 1::nat)]]
         (\<lparr>models = [(''model'', Model True (Some (5::nat)) None),
                      (''aux'', Model True None None),
                      (''dp'', Model True None (Some (Wrapped True (Some 7)))),
                      (''bare'', Model True None (Some (Wrapped True None)))],
            calls = []\<rparr>
          \<lparr>models := map (\<lambda>(model_name, m). (model_name, eval m))
             (models \<lparr>models = [(''model'', Model True (Some (5::nat)) None),
                      (''aux'', Model True None None),
                      (''dp'', Model True None (Some (Wrapped True (Some 7)))),
                      (''bare'', Model True None (Some (Wrapped True None)))],
            calls = ([] :: (string \<times> nat) list list)\<rparr>)\<rparr>)) = Inr ()
   \<and> distinct (keys (models (snd (evaluate (do_iteration (\<lambda>m b. Inr m)) id [[(''x'', 1::nat)]] None
         \<lparr>models = [(''model'', Model True (Some (5::nat)) None),
                      (''aux'', Model True None None),
                      (''dp'', Model True None (Some (Wrapped True (Some 7)))),
                      (''bare'', Model True None (Some (Wrapped True None)))],
            calls = []\<rparr>))))
   \<and> (\<exists>eval_metrics.
         fst (evaluate (do_iteration (\<lambda>m b. Inr m)) id [[(''x'', 1::nat)]] None
         \<lparr>models = [(''model'', Model True (Some (5::nat)) None),
                      (''aux'', Model True None None),
                      (''dp'', Model True None (Some (Wrapped True (Some 7)))),
                      (''bare'', Model True None (Some (Wrapped True None)))],
            calls = []\<rparr>) = Inr eval_metrics
         \<and> map_of eval_metrics ''model'' = Some 5
         \<and> map_of eval_metrics ''aux'' = None
         \<and> map_of eval_metrics ''dp'' = Some 7
         \<and> map_of eval_metrics ''bare'' = None)"
proof -
  let ?ev = "\<lparr>models = [(''model'', Model True (Some (5::nat)) None),
                      (''aux'', Model True None None),
                      (''dp'', Model True None (Some (Wrapped True (Some 7)))),
                      (''bare'', Model True None (Some (Wrapped True None)))],
            calls = ([] :: (string \<times> nat) list list)\<rparr>"
  let ?do = "do_iteration (\<lambda>m b. Inr m) :: (string \<times> nat) list \<Rightarrow> _"
  let ?dl = "[[(''x'', 1::nat)]]"
  have h1: "fst (batch_loop ?do id None 0 ?dl
      (?ev\<lparr>models := map (\<lambda>(model_name, m). (model_name, eval m)) (models ?ev)\<rparr>)) = Inr ()"
    by (simp add: run_simps)
  have ms: "models (snd (evaluate ?do id ?dl None ?ev)) =
      [(''model'', Model True (Some (5::nat)) None),
       (''aux'', Model True None None),
       (''dp'', Model True None (Some (Wrapped True (Some 7)))),
       (''bare'', Model True None (Some (Wrapped True None)))]"
    by (simp add: run_simps)
  have h2: "distinct (keys (models (snd (evaluate ?do id ?dl None ?ev))))"
    unfolding ms by (simp add: keys_def)
  from evaluate_metrics_follow_capability [OF h1 h2]
  obtain eval_metrics where r: "fst (evaluate ?do id ?dl None ?ev) = Inr eval_metrics"
    and l: "\<And>name. map_of eval_metrics name =
              (case map_of (models (snd (evaluate ?do id ?dl None ?ev))) name of
                 None \<Rightarrow> None
               | Some m \<Rightarrow>
                   (case get_metrics m of
                      Some x \<Rightarrow> Some x
                    | None \<Rightarrow> (case module m of Some w \<Rightarrow> w_get_metrics w | None \<Rightarrow> None)))"
    by blast
  have "map_of eval_metrics ''model'' = Some 5" "map_of eval_metrics ''aux'' = None"
    "map_of eval_metrics ''dp'' = Some 7" "map_of eval_metrics ''bare'' = None"
    unfolding l ms by simp_all
  with r have "\<exists>eval_metrics. fst (evaluate ?do id ?dl None ?ev) = Inr eval_metrics
         \<and> map_of eval_metrics ''model'' = Some 5
         \<and> map_of eval_metrics ''aux'' = None
         \<and> map_of eval_metrics ''dp'' = Some 7
         \<and> map_of eval_metrics ''bare'' = None" by blast
  with h1 h2 show ?thesis by (intro conjI)
qed

end
